theory Spec2Isabelle
  imports Main "HOL-Library.Word"
begin

section \<open>The simulation driver \<open>sim_main.cpp\<close>\<close>

text \<open>
  The driver is one procedure, \<open>main\<close>:
  \<^verbatim>\<open>
  int main(int argc, char **argv) {
      Verilated::commandArgs(argc, argv);
      Vfilter_rx_pipeline_tb* tb = new Vfilter_rx_pipeline_tb;
      for (int i = 0; i < 200000 && !Verilated::gotFinish(); i++) {
          tb->eval();
      }
      delete tb;
      return 0;
  }
  \<close>
  Everything it calls belongs to the simulation runtime and to the generated model, neither
  of which is part of the repository. They are taken as parameters: a record of five
  operations over an arbitrary type \<open>'w\<close> of runtime-and-model states and an arbitrary type
  \<open>'h\<close> of model handles. Each operation is a total state transformer, that is, a call
  that returns to the driver. The driver itself is embedded as a function that threads the
  state through the calls and records every call it makes, in order, in a trace.
\<close>

subsection \<open>Data\<close>

text \<open>The C type \<open>int\<close> of \<open>argc\<close>, of the loop counter and of the exit status.\<close>

type_synonym c_int = "32 word"

text \<open>
  The calls the driver can make. \<open>New\<close> carries the pointer that \<open>new\<close> returned,
  \<open>Eval\<close> and \<open>Delete\<close> the pointer they were applied to, and \<open>GotFinish\<close> the
  answer of \<open>Verilated::gotFinish()\<close>, a static member function that takes no model.
\<close>

datatype 'h event =
    CommandArgs c_int "string list"
  | New 'h
  | GotFinish bool
  | Eval 'h
  | Delete 'h

record ('w, 'h) runtime =
  commandArgs :: "c_int \<Rightarrow> string list \<Rightarrow> 'w \<Rightarrow> 'w"
  new_tb :: "'w \<Rightarrow> 'h \<times> 'w"
  gotFinish :: "'w \<Rightarrow> bool"
  eval :: "'h \<Rightarrow> 'w \<Rightarrow> 'w"
  delete_tb :: "'h \<Rightarrow> 'w \<Rightarrow> 'w"

record ('w, 'h) exec =
  world :: 'w
  trace :: "'h event list"

subsection \<open>The calls, each recorded in the trace\<close>

definition call_commandArgs ::
  "('w, 'h) runtime \<Rightarrow> c_int \<Rightarrow> string list \<Rightarrow> ('w, 'h) exec \<Rightarrow> ('w, 'h) exec" where
  "call_commandArgs R argc argv s =
     \<lparr>world = commandArgs R argc argv (world s),
      trace = trace s @ [CommandArgs argc argv]\<rparr>"

definition call_new :: "('w, 'h) runtime \<Rightarrow> ('w, 'h) exec \<Rightarrow> 'h \<times> ('w, 'h) exec" where
  "call_new R s =
     (case new_tb R (world s) of
        (tb, w) \<Rightarrow> (tb, \<lparr>world = w, trace = trace s @ [New tb]\<rparr>))"

definition call_gotFinish :: "('w, 'h) runtime \<Rightarrow> ('w, 'h) exec \<Rightarrow> bool \<times> ('w, 'h) exec" where
  "call_gotFinish R s =
     (let b = gotFinish R (world s)
      in (b, \<lparr>world = world s, trace = trace s @ [GotFinish b]\<rparr>))"

definition call_eval :: "('w, 'h) runtime \<Rightarrow> 'h \<Rightarrow> ('w, 'h) exec \<Rightarrow> ('w, 'h) exec" where
  "call_eval R tb s = \<lparr>world = eval R tb (world s), trace = trace s @ [Eval tb]\<rparr>"

definition call_delete :: "('w, 'h) runtime \<Rightarrow> 'h \<Rightarrow> ('w, 'h) exec \<Rightarrow> ('w, 'h) exec" where
  "call_delete R tb s = \<lparr>world = delete_tb R tb (world s), trace = trace s @ [Delete tb]\<rparr>"

subsection \<open>The loop and the procedure\<close>

text \<open>
  The \<open>for\<close> statement, entered with the counter \<open>i\<close>. The condition is
  \<open>i < 200000 && !Verilated::gotFinish()\<close>: the comparison is signed and comes first, and
  \<open>&&\<close> does not ask the runtime when the comparison fails. The body is one call of
  \<open>eval\<close>, followed by \<open>i++\<close>.
\<close>

function loop :: "('w, 'h) runtime \<Rightarrow> 'h \<Rightarrow> c_int \<Rightarrow> ('w, 'h) exec \<Rightarrow> ('w, 'h) exec" where
  "loop R tb i s =
     (if i <s 200000 then
        (case call_gotFinish R s of
           (fin, s1) \<Rightarrow>
             if \<not> fin then loop R tb (i + 1) (call_eval R tb s1) else s1)
      else s)"
  by pat_completeness auto

text \<open>The procedure: its exit status and the final state with the trace of its calls.\<close>

definition main ::
  "('w, 'h) runtime \<Rightarrow> c_int \<Rightarrow> string list \<Rightarrow> 'w \<Rightarrow> c_int \<times> ('w, 'h) exec" where
  "main R argc argv w0 =
     (let s1 = call_commandArgs R argc argv \<lparr>world = w0, trace = []\<rparr> in
      case call_new R s1 of
        (tb, s2) \<Rightarrow>
          let s3 = loop R tb 0 s2;
              s4 = call_delete R tb s3
          in (0, s4))"

subsection \<open>Vocabulary for the properties\<close>

text \<open>The state of the runtime after \<open>n\<close> evaluation steps of the model \<open>tb\<close>.\<close>

primrec iter_eval :: "('w, 'h) runtime \<Rightarrow> 'h \<Rightarrow> nat \<Rightarrow> 'w \<Rightarrow> 'w" where
  "iter_eval R tb 0 w = w"
| "iter_eval R tb (Suc n) w = iter_eval R tb n (eval R tb w)"

text \<open>
  The number of evaluation steps, out of at most \<open>n\<close>, that pass before the completion
  flag is seen raised.
\<close>

primrec evals_needed :: "('w, 'h) runtime \<Rightarrow> 'h \<Rightarrow> nat \<Rightarrow> 'w \<Rightarrow> nat" where
  "evals_needed R tb 0 w = 0"
| "evals_needed R tb (Suc n) w =
     (if gotFinish R w then 0 else Suc (evals_needed R tb n (eval R tb w)))"

text \<open>\<open>k\<close> full iterations of the loop: the flag is read as lowered, the model is stepped.\<close>

definition rounds :: "'h \<Rightarrow> nat \<Rightarrow> 'h event list" where
  "rounds tb k = concat (replicate k [GotFinish False, Eval tb])"

fun is_New :: "'h event \<Rightarrow> bool" where
  "is_New (New h) = True"
| "is_New e = False"

fun is_Eval :: "'h event \<Rightarrow> bool" where
  "is_Eval (Eval h) = True"
| "is_Eval e = False"

fun is_Delete :: "'h event \<Rightarrow> bool" where
  "is_Delete (Delete h) = True"
| "is_Delete e = False"

definition num_evals :: "'h event list \<Rightarrow> nat" where
  "num_evals t = length (filter is_Eval t)"

definition num_news :: "'h event list \<Rightarrow> nat" where
  "num_news t = length (filter is_New t)"

definition num_deletes :: "'h event list \<Rightarrow> nat" where
  "num_deletes t = length (filter is_Delete t)"

text \<open>The answers the runtime gave to the completion queries, in order.\<close>

fun responses :: "'h event list \<Rightarrow> bool list" where
  "responses [] = []"
| "responses (GotFinish b # es) = b # responses es"
| "responses (e # es) = responses es"

text \<open>The answer to the most recent completion query, if there was one.\<close>

definition last_check :: "'h event list \<Rightarrow> bool option" where
  "last_check t = (if responses t = [] then None else Some (last (responses t)))"

text \<open>
  The model a call is applied to or returns. \<open>Verilated::commandArgs\<close> and
  \<open>Verilated::gotFinish\<close> are static member functions of the runtime: no model takes
  part in them.
\<close>

fun receiver :: "'h event \<Rightarrow> 'h option" where
  "receiver (CommandArgs argc argv) = None"
| "receiver (New h) = Some h"
| "receiver (GotFinish b) = None"
| "receiver (Eval h) = Some h"
| "receiver (Delete h) = Some h"

definition on_handle :: "'h event \<Rightarrow> bool" where
  "on_handle e = (receiver e \<noteq> None)"

fun is_GotFinish :: "'h event \<Rightarrow> bool" where
  "is_GotFinish (GotFinish b) = True"
| "is_GotFinish e = False"

definition is_step_or_query :: "'h event \<Rightarrow> bool" where
  "is_step_or_query e = (is_Eval e \<or> is_GotFinish e)"

text \<open>
  The answers the runtime gives to \<open>n\<close> successive completion queries, when the model
  \<open>tb\<close> is advanced by one step after each of them, whether or not a driver asks for them.
\<close>

primrec answers :: "('w, 'h) runtime \<Rightarrow> 'h \<Rightarrow> nat \<Rightarrow> 'w \<Rightarrow> bool list" where
  "answers R tb 0 w = []"
| "answers R tb (Suc n) w = gotFinish R w # answers R tb n (eval R tb w)"

subsection \<open>A concrete runtime\<close>

text \<open>
  A runtime to run the driver on: its state is the argument vector it was given and the
  number of evaluation steps made so far, its only model has the handle \<open>0\<close>, and its
  completion flag is up once \<open>d\<close> steps have been made.
\<close>

definition timed_runtime :: "nat \<Rightarrow> (string list \<times> nat, nat) runtime" where
  "timed_runtime d =
     \<lparr>commandArgs = (\<lambda>argc argv w. (argv, snd w)),
      new_tb = (\<lambda>w. (0, w)),
      gotFinish = (\<lambda>w. d \<le> snd w),
      eval = (\<lambda>tb w. (fst w, Suc (snd w))),
      delete_tb = (\<lambda>tb w. w)\<rparr>"

section \<open>Termination of the loop\<close>

text \<open>Below the ceiling the increment of the 32-bit counter does not wrap.\<close>

lemma sint_succ_below:
  fixes i :: c_int
  assumes "i <s 200000"
  shows "sint (i + 1) = sint i + 1"
proof -
  have up: "sint i < 200000"
    using assms by (simp add: word_sless_alt)
  have lo: "- (2 ^ 31) \<le> sint i"
    using sint_ge [of i] by simp
  have "sint (i + 1) = signed_take_bit 31 (sint i + 1)"
    by (simp add: sint_word_ariths)
  also have "\<dots> = sint i + 1"
    using up lo by (intro signed_take_bit_int_eq_self) simp_all
  finally show ?thesis .
qed

termination loop
  apply (relation "measure (\<lambda>(R, tb, i, s). nat (200000 - sint i))")
   apply simp
  apply (simp add: sint_succ_below)
  apply (simp add: word_sless_alt)
  done

declare loop.simps [simp del]

section \<open>The loop, characterised\<close>

lemma rounds_0 [simp]: "rounds tb 0 = []"
  by (simp add: rounds_def)

lemma rounds_Suc [simp]: "rounds tb (Suc k) = GotFinish False # Eval tb # rounds tb k"
  by (simp add: rounds_def)

lemma loop_stop:
  fixes i :: c_int
  assumes "nat (200000 - sint i) = 0"
  shows "loop R tb i s = s"
proof -
  have "\<not> i <s 200000"
    using assms by (simp add: word_sless_alt)
  then show ?thesis
    by (subst loop.simps) simp
qed

lemma loop_step:
  fixes i :: c_int
  assumes "nat (200000 - sint i) = Suc n"
  shows "loop R tb i s =
           (if gotFinish R (world s)
            then \<lparr>world = world s, trace = trace s @ [GotFinish True]\<rparr>
            else loop R tb (i + 1)
                   \<lparr>world = eval R tb (world s),
                    trace = trace s @ [GotFinish False, Eval tb]\<rparr>)"
    and "nat (200000 - sint (i + 1)) = n"
proof -
  have lt: "i <s 200000"
    using assms by (simp add: word_sless_alt)
  show "nat (200000 - sint (i + 1)) = n"
    using assms by (simp add: sint_succ_below [OF lt])
  show "loop R tb i s =
           (if gotFinish R (world s)
            then \<lparr>world = world s, trace = trace s @ [GotFinish True]\<rparr>
            else loop R tb (i + 1)
                   \<lparr>world = eval R tb (world s),
                    trace = trace s @ [GotFinish False, Eval tb]\<rparr>)"
    using lt by (subst loop.simps) (simp add: call_gotFinish_def call_eval_def)
qed

text \<open>
  With \<open>n\<close> iterations left below the ceiling, the loop steps the model
  \<open>evals_needed R tb n\<close> times, and its last query is the one that saw the flag raised,
  unless the ceiling ended it.
\<close>

lemma loop_eq:
  fixes i :: c_int
  assumes "nat (200000 - sint i) = n"
  shows "loop R tb i s =
           \<lparr>world = iter_eval R tb (evals_needed R tb n (world s)) (world s),
            trace = trace s @ rounds tb (evals_needed R tb n (world s))
                      @ (if evals_needed R tb n (world s) < n then [GotFinish True] else [])\<rparr>"
  using assms
proof (induction n arbitrary: i s)
  case 0
  then show ?case by (simp add: loop_stop)
next
  case (Suc n)
  note step = loop_step [OF Suc.prems]
  show ?case
  proof (cases "gotFinish R (world s)")
    case True
    then show ?thesis by (simp add: step(1))
  next
    case False
    then show ?thesis
      by (simp add: step(1) Suc.IH [OF step(2)])
  qed
qed

lemma evals_needed_le: "evals_needed R tb n w \<le> n"
  by (induction n arbitrary: w) simp_all

lemma evals_needed_first:
  assumes "k < n"
    and "\<forall>j<k. \<not> gotFinish R (iter_eval R tb j w)"
    and "gotFinish R (iter_eval R tb k w)"
  shows "evals_needed R tb n w = k"
  using assms
proof (induction n arbitrary: k w)
  case 0
  then show ?case by simp
next
  case (Suc n)
  show ?case
  proof (cases k)
    case 0
    with Suc.prems show ?thesis by simp
  next
    case (Suc k')
    have low: "\<not> gotFinish R w"
      using Suc.prems(2) Suc by force
    have later: "\<forall>j<k'. \<not> gotFinish R (iter_eval R tb j (eval R tb w))"
      using Suc.prems(2) Suc by force
    have "evals_needed R tb n (eval R tb w) = k'"
      using Suc.prems(1,3) Suc later by (intro Suc.IH) simp_all
    with low Suc show ?thesis by simp
  qed
qed

lemma evals_needed_never:
  assumes "\<forall>j<n. \<not> gotFinish R (iter_eval R tb j w)"
  shows "evals_needed R tb n w = n"
  using assms
proof (induction n arbitrary: w)
  case 0
  then show ?case by simp
next
  case (Suc n)
  have low: "\<not> gotFinish R w"
    using Suc.prems by force
  have "\<forall>j<n. \<not> gotFinish R (iter_eval R tb j (eval R tb w))"
    using Suc.prems by force
  then have "evals_needed R tb n (eval R tb w) = n"
    by (rule Suc.IH)
  with low show ?case by simp
qed

text \<open>The whole run, for the handle and the state that \<open>new\<close> returns.\<close>

lemma main_eq:
  assumes "new_tb R (commandArgs R argc argv w0) = (tb, w1)"
  shows "main R argc argv w0 =
           (0, \<lparr>world = delete_tb R tb (iter_eval R tb (evals_needed R tb 200000 w1) w1),
                trace = [CommandArgs argc argv, New tb]
                          @ rounds tb (evals_needed R tb 200000 w1)
                          @ (if evals_needed R tb 200000 w1 < 200000 then [GotFinish True] else [])
                          @ [Delete tb]\<rparr>)"
proof -
  have "nat (200000 - sint (0 :: c_int)) = 200000"
    by simp
  note run = loop_eq [OF this, of R tb]
  show ?thesis
    using assms
    by (simp add: main_def call_commandArgs_def call_new_def call_delete_def Let_def run)
qed

section \<open>Facts about traces\<close>

lemma filter_Eval_rounds [simp]: "filter is_Eval (rounds tb k) = replicate k (Eval tb)"
  by (induction k) simp_all

lemma filter_New_rounds [simp]: "filter is_New (rounds tb k) = []"
  by (induction k) simp_all

lemma filter_Delete_rounds [simp]: "filter is_Delete (rounds tb k) = []"
  by (induction k) simp_all

lemma filter_on_handle_rounds [simp]: "filter on_handle (rounds tb k) = replicate k (Eval tb)"
  by (induction k) (simp_all add: on_handle_def)

lemma responses_append: "responses (xs @ ys) = responses xs @ responses ys"
  by (induction xs rule: responses.induct) simp_all

lemma responses_rounds [simp]: "responses (rounds tb k) = replicate k False"
  by (induction k) simp_all

lemma raised_not_in_rounds: "GotFinish True \<notin> set (rounds tb k)"
  by (induction k) simp_all

lemma split_after_prefix:
  assumes "xs @ ys = p @ a # r" and "a \<notin> set xs"
  shows "\<exists>q. ys = q @ a # r"
  using assms
proof (induction xs arbitrary: p)
  case Nil
  then show ?case by auto
next
  case (Cons x xs)
  show ?case
  proof (cases p)
    case Nil
    with Cons.prems show ?thesis by simp
  next
    case (Cons y p')
    with Cons.prems have "xs @ ys = p' @ a # r" and "a \<notin> set xs"
      by simp_all
    then show ?thesis by (rule Cons.IH)
  qed
qed

text \<open>Inside the iterations, and with no step after them, a step follows a lowered flag.\<close>

lemma eval_in_rounds:
  assumes "rounds tb k @ rest = p @ Eval h # r" and "Eval h \<notin> set rest"
  shows "p \<noteq> [] \<and> last p = GotFinish False"
  using assms
proof (induction k arbitrary: p)
  case 0
  then show ?case by auto
next
  case (Suc k)
  show ?case
  proof (cases p)
    case Nil
    with Suc.prems show ?thesis by simp
  next
    case outer: (Cons a p')
    show ?thesis
    proof (cases p')
      case Nil
      with outer Suc.prems show ?thesis by simp
    next
      case (Cons b p'')
      with outer Suc.prems have "rounds tb k @ rest = p'' @ Eval h # r"
        by simp
      then have "p'' \<noteq> [] \<and> last p'' = GotFinish False"
        using Suc.prems(2) by (rule Suc.IH)
      with outer Cons show ?thesis by simp
    qed
  qed
qed

lemma last_check_snoc: "last_check (p @ [GotFinish b]) = Some b"
  by (simp add: last_check_def responses_append)

lemma iter_eval_timed: "iter_eval (timed_runtime d) tb j w = (fst w, snd w + j)"
  by (induction j arbitrary: w) (simp_all add: timed_runtime_def)

lemma new_timed:
  "new_tb (timed_runtime d) (commandArgs (timed_runtime d) argc argv w) = (0, (argv, snd w))"
  by (simp add: timed_runtime_def)

lemma gotFinish_timed: "gotFinish (timed_runtime d) w = (d \<le> snd w)"
  by (simp add: timed_runtime_def)

lemma dropWhile_rounds:
  "dropWhile (\<lambda>e. e \<noteq> GotFinish True) (rounds tb k @ GotFinish True # es) = GotFinish True # es"
  by (induction k) simp_all

lemma timed_trace:
  assumes "d < 200000"
  shows "trace (snd (main (timed_runtime d) argc argv (a, 0))) =
           [CommandArgs argc argv, New 0] @ rounds 0 d @ [GotFinish True, Delete 0]"
proof -
  have n: "new_tb (timed_runtime d) (commandArgs (timed_runtime d) argc argv (a, 0))
             = (0, (argv, 0))"
    by (simp add: new_timed)
  have k: "evals_needed (timed_runtime d) 0 200000 (argv, 0) = d"
    using assms by (intro evals_needed_first) (simp_all add: gotFinish_timed iter_eval_timed)
  show ?thesis
    using assms by (simp add: main_eq [OF n] k)
qed

text \<open>The answers are the values of the flag after 0, 1, 2, ... evaluation steps.\<close>

lemma length_answers [simp]: "length (answers R tb n w) = n"
  by (induction n arbitrary: w) simp_all

lemma nth_answers:
  "j < n \<Longrightarrow> answers R tb n w ! j = gotFinish R (iter_eval R tb j w)"
proof (induction n arbitrary: j w)
  case 0
  then show ?case by simp
next
  case (Suc n)
  then show ?case by (cases j) simp_all
qed

text \<open>The number of iterations is a function of the runtime's answers alone.\<close>

lemma evals_needed_answers:
  assumes "answers R tb n w = answers R' tb' n w'"
  shows "evals_needed R tb n w = evals_needed R' tb' n w'"
  using assms
proof (induction n arbitrary: w w')
  case 0
  then show ?case by simp
next
  case (Suc n)
  from Suc.prems have now: "gotFinish R w = gotFinish R' w'"
    and later: "answers R tb n (eval R tb w) = answers R' tb' n (eval R' tb' w')"
    by simp_all
  from later have "evals_needed R tb n (eval R tb w) = evals_needed R' tb' n (eval R' tb' w')"
    by (rule Suc.IH)
  with now show ?case by simp
qed

lemma map_event_rounds: "map (map_event f) (rounds tb k) = rounds (f tb) k"
  by (induction k) simp_all

lemma answers_timed:
  "snd w = snd w' \<Longrightarrow> answers (timed_runtime d) tb n w = answers (timed_runtime d) tb' n w'"
  by (induction n arbitrary: w w') (simp_all add: timed_runtime_def)

lemma main_status: "fst (main R argc argv w0) = 0"
  by (cases "new_tb R (commandArgs R argc argv w0)") (simp add: main_eq)

text \<open>Where a run makes an evaluation call, the call before it is a query answered "not finished".\<close>

lemma eval_in_main:
  assumes "trace (snd (main R argc argv w0)) = p @ Eval h # r"
  shows "p \<noteq> [] \<and> last p = GotFinish False \<and> GotFinish True \<notin> set p"
proof (cases "new_tb R (commandArgs R argc argv w0)")
  case (Pair tb w1)
  define k where "k = evals_needed R tb 200000 w1"
  define rest where "rest = (if k < 200000 then [GotFinish True] else []) @ [Delete tb]"
  have t: "trace (snd (main R argc argv w0)) =
             CommandArgs argc argv # New tb # rounds tb k @ rest"
    by (simp add: main_eq [OF Pair] k_def rest_def)
  have no_eval: "Eval h \<notin> set rest"
    by (simp add: rest_def)
  have split: "CommandArgs argc argv # New tb # rounds tb k @ rest = p @ Eval h # r"
    using assms t by simp
  have before: "p \<noteq> [] \<and> last p = GotFinish False"
  proof (cases p)
    case Nil
    with split show ?thesis by simp
  next
    case outer: (Cons a p')
    show ?thesis
    proof (cases p')
      case Nil
      with outer split show ?thesis by simp
    next
      case (Cons b p'')
      with outer split have "rounds tb k @ rest = p'' @ Eval h # r"
        by simp
      then have "p'' \<noteq> [] \<and> last p'' = GotFinish False"
        using no_eval by (rule eval_in_rounds)
      with outer Cons show ?thesis by simp
    qed
  qed
  have "GotFinish True \<notin> set p"
  proof
    assume "GotFinish True \<in> set p"
    then obtain p1 p2 where p: "p = p1 @ GotFinish True # p2"
      by (auto dest: split_list)
    have eq: "([CommandArgs argc argv, New tb] @ rounds tb k) @ rest
            = p1 @ GotFinish True # (p2 @ Eval h # r)"
      using split p by simp
    have fresh: "GotFinish True \<notin> set ([CommandArgs argc argv, New tb] @ rounds tb k)"
      by (simp add: raised_not_in_rounds)
    from split_after_prefix [OF eq fresh]
    obtain q where "rest = q @ GotFinish True # (p2 @ Eval h # r)" ..
    then have "Eval h \<in> set rest"
      by simp
    with no_eval show False ..
  qed
  with before show ?thesis by simp
qed

section \<open>Properties of the driver\<close>

text \<open>
  C1. Let \<open>tb\<close> be the model that \<open>new\<close> returns and \<open>w1\<close> the state it leaves. If
  the completion flag is first up after evaluation step \<open>k\<close>, with \<open>k < 200000\<close> (it is
  down after each of the steps before), then the driver runs exactly \<open>k\<close> iterations,
  each a query answered "not finished" and one step; the next query sees the flag, and all
  that follows it is the one \<open>delete\<close> of the model. So exactly \<open>k\<close> evaluation calls are
  made, none after the flag is seen, and the model is released exactly once, afterwards.
\<close>

theorem early_completion:
  assumes "new_tb R (commandArgs R argc argv w0) = (tb, w1)"
    and "k < 200000"
    and "\<forall>j<k. \<not> gotFinish R (iter_eval R tb j w1)"
    and "gotFinish R (iter_eval R tb k w1)"
  shows "trace (snd (main R argc argv w0)) =
           [CommandArgs argc argv, New tb] @ rounds tb k @ [GotFinish True, Delete tb]
         \<and> num_evals (trace (snd (main R argc argv w0))) = k
         \<and> dropWhile (\<lambda>e. e \<noteq> GotFinish True) (trace (snd (main R argc argv w0))) =
             [GotFinish True, Delete tb]
         \<and> num_deletes (trace (snd (main R argc argv w0))) = 1"
proof -
  have k: "evals_needed R tb 200000 w1 = k"
    using assms(2-4) by (rule evals_needed_first)
  have t: "trace (snd (main R argc argv w0)) =
             [CommandArgs argc argv, New tb] @ rounds tb k @ [GotFinish True, Delete tb]"
    using assms(2) by (simp add: main_eq [OF assms(1)] k)
  show ?thesis
    by (simp add: t num_evals_def num_deletes_def dropWhile_rounds)
qed

theorem early_completion_witness:
  "new_tb (timed_runtime 3) (commandArgs (timed_runtime 3) 1 [''sim''] ([], 0))
     = (0, ([''sim''], 0))
   \<and> (3 :: nat) < 200000
   \<and> \<not> gotFinish (timed_runtime 3) (iter_eval (timed_runtime 3) 0 0 ([''sim''], 0))
   \<and> \<not> gotFinish (timed_runtime 3) (iter_eval (timed_runtime 3) 0 1 ([''sim''], 0))
   \<and> \<not> gotFinish (timed_runtime 3) (iter_eval (timed_runtime 3) 0 2 ([''sim''], 0))
   \<and> gotFinish (timed_runtime 3) (iter_eval (timed_runtime 3) 0 3 ([''sim''], 0))
   \<and> trace (snd (main (timed_runtime 3) 1 [''sim''] ([], 0))) =
       [CommandArgs 1 [''sim''], New 0,
        GotFinish False, Eval 0, GotFinish False, Eval 0, GotFinish False, Eval 0,
        GotFinish True, Delete 0]
   \<and> num_evals (trace (snd (main (timed_runtime 3) 1 [''sim''] ([], 0)))) = 3
   \<and> num_deletes (trace (snd (main (timed_runtime 3) 1 [''sim''] ([], 0)))) = 1"
proof -
  have h1: "new_tb (timed_runtime 3) (commandArgs (timed_runtime 3) 1 [''sim''] ([], 0))
              = (0, ([''sim''], 0))"
    by (simp add: new_timed)
  have h2: "(3 :: nat) < 200000"
    by simp
  have h3: "\<forall>j<3. \<not> gotFinish (timed_runtime 3) (iter_eval (timed_runtime 3) 0 j ([''sim''], 0))"
    by (simp add: gotFinish_timed iter_eval_timed)
  have h4: "gotFinish (timed_runtime 3) (iter_eval (timed_runtime 3) 0 3 ([''sim''], 0))"
    by (simp add: gotFinish_timed iter_eval_timed)
  note run = early_completion [OF h1 h2 h3 h4]
  from run have c1: "trace (snd (main (timed_runtime 3) 1 [''sim''] ([], 0))) =
       [CommandArgs 1 [''sim''], New 0,
        GotFinish False, Eval 0, GotFinish False, Eval 0, GotFinish False, Eval 0,
        GotFinish True, Delete 0]"
    by (simp add: eval_nat_numeral)
  from run have c2: "num_evals (trace (snd (main (timed_runtime 3) 1 [''sim''] ([], 0)))) = 3"
    by (rule conjunct1 [OF conjunct2])
  from run have c3: "num_deletes (trace (snd (main (timed_runtime 3) 1 [''sim''] ([], 0)))) = 1"
    by (rule conjunct2 [OF conjunct2 [OF conjunct2]])
  have low: "\<not> gotFinish (timed_runtime 3) (iter_eval (timed_runtime 3) 0 j ([''sim''], 0))"
    if "j < 3" for j
    using h3 that by blast
  show ?thesis
    by (intro conjI h1 h2 h4 c1 c2 c3 low) simp_all
qed

text \<open>
  C2. If the completion flag is down after each of the first 200000 numbers of steps (as it
  is for a model that never raises it), the driver makes exactly 200000 evaluation calls, each
  after a query answered "not finished", and then releases the model: the \<open>delete\<close> is
  the next and last call.
\<close>

theorem ceiling_reached:
  assumes "new_tb R (commandArgs R argc argv w0) = (tb, w1)"
    and "\<forall>j<200000. \<not> gotFinish R (iter_eval R tb j w1)"
  shows "num_evals (trace (snd (main R argc argv w0))) = 200000
         \<and> trace (snd (main R argc argv w0)) =
             [CommandArgs argc argv, New tb] @ rounds tb 200000 @ [Delete tb]"
proof -
  have k: "evals_needed R tb 200000 w1 = 200000"
    using assms(2) by (rule evals_needed_never)
  have t: "trace (snd (main R argc argv w0)) =
             [CommandArgs argc argv, New tb] @ rounds tb 200000 @ [Delete tb]"
    by (simp add: main_eq [OF assms(1)] k)
  show ?thesis
    by (simp add: t num_evals_def)
qed

theorem ceiling_reached_witness:
  "new_tb (timed_runtime 300000) (commandArgs (timed_runtime 300000) 1 [''sim''] ([], 0))
     = (0, ([''sim''], 0))
   \<and> \<not> gotFinish (timed_runtime 300000) (iter_eval (timed_runtime 300000) 0 0 ([''sim''], 0))
   \<and> \<not> gotFinish (timed_runtime 300000)
         (iter_eval (timed_runtime 300000) 0 199999 ([''sim''], 0))
   \<and> num_evals (trace (snd (main (timed_runtime 300000) 1 [''sim''] ([], 0)))) = 200000
   \<and> trace (snd (main (timed_runtime 300000) 1 [''sim''] ([], 0))) =
       [CommandArgs 1 [''sim''], New 0] @ rounds 0 200000 @ [Delete 0]"
proof -
  have h1: "new_tb (timed_runtime 300000) (commandArgs (timed_runtime 300000) 1 [''sim''] ([], 0))
              = (0, ([''sim''], 0))"
    by (simp add: new_timed)
  have h2: "\<forall>j<200000. \<not> gotFinish (timed_runtime 300000)
                          (iter_eval (timed_runtime 300000) 0 j ([''sim''], 0))"
    by (simp add: gotFinish_timed iter_eval_timed)
  have low: "\<not> gotFinish (timed_runtime 300000)
                 (iter_eval (timed_runtime 300000) 0 j ([''sim''], 0))"
    if "j < 200000" for j
    using h2 that by blast
  note run = ceiling_reached [OF h1 h2]
  show ?thesis
    by (intro conjI h1 low conjunct1 [OF run] conjunct2 [OF run]) simp_all
qed

text \<open>
  C3. Whatever the arguments and whatever the runtime and the model do, the exit status is
  0: the procedure has one \<open>return\<close>, and it returns 0.
\<close>

theorem exit_status_zero: "fst (main R argc argv w0) = 0"
  by (cases "new_tb R (commandArgs R argc argv w0)") (simp add: main_eq)

text \<open>
  C4. On every run the model is allocated exactly once and deallocated exactly once: the
  trace holds one \<open>new\<close> and one \<open>delete\<close>, and the pointer deleted is the pointer that
  \<open>new\<close> returned.
\<close>

theorem allocated_once_deallocated_once:
  "num_news (trace (snd (main R argc argv w0))) = 1
   \<and> num_deletes (trace (snd (main R argc argv w0))) = 1
   \<and> filter is_New (trace (snd (main R argc argv w0))) =
       [New (fst (new_tb R (commandArgs R argc argv w0)))]
   \<and> filter is_Delete (trace (snd (main R argc argv w0))) =
       [Delete (fst (new_tb R (commandArgs R argc argv w0)))]"
  by (cases "new_tb R (commandArgs R argc argv w0)")
     (simp add: main_eq num_news_def num_deletes_def)

text \<open>
  C5. Every run makes its calls in one order: the arguments are handed to the runtime, one
  model is allocated, the loop runs some number \<open>k\<close> of iterations, at most 200000,
  stopping early exactly when a query sees the flag raised, the model is deallocated, and
  the procedure returns 0. The state of the runtime is threaded through the calls in that
  order.
\<close>

theorem fixed_order:
  "(case new_tb R (commandArgs R argc argv w0) of
      (tb, w1) \<Rightarrow>
        let k = evals_needed R tb 200000 w1 in
          k \<le> 200000
          \<and> trace (snd (main R argc argv w0)) =
              [CommandArgs argc argv] @ [New tb] @ rounds tb k
                @ (if k < 200000 then [GotFinish True] else []) @ [Delete tb]
          \<and> world (snd (main R argc argv w0)) = delete_tb R tb (iter_eval R tb k w1)
          \<and> fst (main R argc argv w0) = 0)"
  by (cases "new_tb R (commandArgs R argc argv w0)")
     (simp add: main_eq evals_needed_le)

text \<open>
  C6. The loop is bounded whatever the model does: the procedure is a total function (the
  recursion of \<open>loop\<close> terminates, by the distance of the counter from the ceiling), and a
  run makes at most 200000 evaluation calls and at most 200000 completion queries, so at
  most 400003 calls in all.
\<close>

theorem loop_bounded:
  "num_evals (trace (snd (main R argc argv w0))) \<le> 200000
   \<and> length (responses (trace (snd (main R argc argv w0)))) \<le> 200000
   \<and> length (trace (snd (main R argc argv w0))) \<le> 400003"
proof (cases "new_tb R (commandArgs R argc argv w0)")
  case (Pair tb w1)
  have le: "evals_needed R tb 200000 w1 \<le> 200000"
    by (rule evals_needed_le)
  have len: "length (rounds tb k) = 2 * k" for k
    by (induction k) simp_all
  show ?thesis
    using le by (simp add: main_eq [OF Pair] num_evals_def responses_append len)
qed

text \<open>
  C9. If the completion flag is already up when the loop is first reached (that is, in the
  state that argument processing and the construction of the model leave), the driver makes
  no evaluation call: it queries the flag once, deallocates the model, once, and exits with
  status 0.
\<close>

theorem finished_before_loop:
  assumes "new_tb R (commandArgs R argc argv w0) = (tb, w1)"
    and "gotFinish R w1"
  shows "trace (snd (main R argc argv w0)) =
           [CommandArgs argc argv, New tb, GotFinish True, Delete tb]
         \<and> num_evals (trace (snd (main R argc argv w0))) = 0
         \<and> num_deletes (trace (snd (main R argc argv w0))) = 1
         \<and> fst (main R argc argv w0) = 0"
proof -
  have "evals_needed R tb 200000 w1 = 0"
    using assms(2) by (intro evals_needed_first) simp_all
  then show ?thesis
    by (simp add: main_eq [OF assms(1)] num_evals_def num_deletes_def)
qed

theorem finished_before_loop_witness:
  "new_tb (timed_runtime 0) (commandArgs (timed_runtime 0) 1 [''sim''] ([], 0))
     = (0, ([''sim''], 0))
   \<and> gotFinish (timed_runtime 0) ([''sim''], 0)
   \<and> trace (snd (main (timed_runtime 0) 1 [''sim''] ([], 0))) =
       [CommandArgs 1 [''sim''], New 0, GotFinish True, Delete 0]
   \<and> num_evals (trace (snd (main (timed_runtime 0) 1 [''sim''] ([], 0)))) = 0
   \<and> num_deletes (trace (snd (main (timed_runtime 0) 1 [''sim''] ([], 0)))) = 1
   \<and> fst (main (timed_runtime 0) 1 [''sim''] ([], 0 :: nat)) = 0"
proof -
  have h1: "new_tb (timed_runtime 0) (commandArgs (timed_runtime 0) 1 [''sim''] ([], 0))
              = (0, ([''sim''], 0))"
    by (simp add: new_timed)
  have h2: "gotFinish (timed_runtime 0) ([''sim''], 0)"
    by (simp add: gotFinish_timed)
  note run = finished_before_loop [OF h1 h2]
  show ?thesis
    using h1 h2 run by blast
qed

text \<open>
  C7, as stated: the calls that involve the model are the evaluation steps and the
  completion queries, these two kinds and no others. This fails on every run. The driver
  also constructs the model and destroys it, and it does not query completion from the
  model: \<open>Verilated::gotFinish()\<close> is a call to the runtime that no model takes part in.
  On the run below (the flag is up after one step) the calls on the model are the \<open>new\<close>,
  one step and the \<open>delete\<close>, while the steps and queries are a query, the step and a
  second query.
\<close>

theorem handle_operations_counterexample:
  "filter on_handle (trace (snd (main (timed_runtime 1) 1 [''sim''] ([], 0)))) =
     [New 0, Eval 0, Delete 0]
   \<and> filter is_step_or_query (trace (snd (main (timed_runtime 1) 1 [''sim''] ([], 0)))) =
     [GotFinish False, Eval 0, GotFinish True]
   \<and> filter on_handle (trace (snd (main (timed_runtime 1) 1 [''sim''] ([], 0)))) \<noteq>
     filter is_step_or_query (trace (snd (main (timed_runtime 1) 1 [''sim''] ([], 0))))"
proof -
  have "trace (snd (main (timed_runtime 1) 1 [''sim''] ([], 0))) =
          [CommandArgs 1 [''sim''], New 0] @ rounds 0 1 @ [GotFinish True, Delete 0]"
    by (rule timed_trace) simp
  then show ?thesis
    by (simp add: on_handle_def is_step_or_query_def)
qed

text \<open>
  C7, amended: the driver applies exactly three operations to the model and no others: it
  constructs it, advances it by one evaluation step (as many times as the loop iterates)
  and destroys it, in this order and all on the pointer that \<open>new\<close> returned. No
  completion query is among the calls on the model: completion is queried from the runtime.
\<close>

theorem handle_operations:
  fixes R :: "('w, 'h) runtime"
  shows "(case new_tb R (commandArgs R argc argv w0) of
      (tb, w1) \<Rightarrow>
        filter on_handle (trace (snd (main R argc argv w0))) =
          [New tb] @ replicate (evals_needed R tb 200000 w1) (Eval tb) @ [Delete tb])
   \<and> filter is_GotFinish (filter on_handle (trace (snd (main R argc argv w0)))) = []
   \<and> filter on_handle (filter is_GotFinish (trace (snd (main R argc argv w0)))) = []"
proof (cases "new_tb R (commandArgs R argc argv w0)")
  case (Pair tb w1)
  have apart: "\<not> (is_GotFinish e \<and> on_handle e)" for e :: "'h event"
    by (cases e) (simp_all add: on_handle_def)
  have none: "filter is_GotFinish (filter on_handle t) = []" for t :: "'h event list"
    using apart by (induction t) auto
  have none': "filter on_handle (filter is_GotFinish t) = []" for t :: "'h event list"
    using apart by (induction t) auto
  have "filter on_handle (trace (snd (main R argc argv w0))) =
          [New tb] @ replicate (evals_needed R tb 200000 w1) (Eval tb) @ [Delete tb]"
    by (simp add: main_eq [OF Pair]) (simp add: on_handle_def)
  then have calls:
    "case new_tb R (commandArgs R argc argv w0) of
       (tb, w1) \<Rightarrow>
         filter on_handle (trace (snd (main R argc argv w0))) =
           [New tb] @ replicate (evals_needed R tb 200000 w1) (Eval tb) @ [Delete tb]"
    by (simp only: Pair prod.case)
  show ?thesis
    by (intro conjI calls none none')
qed

text \<open>
  C8. The arguments do not steer the driver: they are handed to the runtime and nothing
  in the driver reads them. Take two runs, on any two argument vectors (and any runtimes
  and initial states), and let the runtime's answers to 200000 successive completion
  queries, one evaluation step of the model after each, be the same in both, from the states
  that argument processing and the construction of the model leave. Then both runs make the
  same number of evaluation calls and exit with the same status; indeed, after the
  hand-over of the arguments both make the same calls in the same order, up to the pointer
  of the model, and get the same answers.
\<close>

theorem control_flow_independent_of_arguments:
  assumes "new_tb R (commandArgs R argc argv w0) = (tb, w1)"
    and "new_tb R' (commandArgs R' argc' argv' w0') = (tb', w1')"
    and "answers R tb 200000 w1 = answers R' tb' 200000 w1'"
  shows "num_evals (trace (snd (main R argc argv w0))) =
           num_evals (trace (snd (main R' argc' argv' w0')))
         \<and> fst (main R argc argv w0) = fst (main R' argc' argv' w0')
         \<and> responses (trace (snd (main R argc argv w0))) =
             responses (trace (snd (main R' argc' argv' w0')))
         \<and> map (map_event (\<lambda>h. ())) (tl (trace (snd (main R argc argv w0)))) =
             map (map_event (\<lambda>h. ())) (tl (trace (snd (main R' argc' argv' w0'))))"
proof -
  have k: "evals_needed R tb 200000 w1 = evals_needed R' tb' 200000 w1'"
    using assms(3) by (rule evals_needed_answers)
  show ?thesis
    by (simp add: main_eq [OF assms(1)] main_eq [OF assms(2)] k num_evals_def
          responses_append map_event_rounds)
qed

theorem control_flow_independent_of_arguments_witness:
  "new_tb (timed_runtime 2) (commandArgs (timed_runtime 2) 1 [''sim''] ([], 0))
     = (0, ([''sim''], 0))
   \<and> new_tb (timed_runtime 2) (commandArgs (timed_runtime 2) 2 [''sim'', ''+trace''] ([], 0))
     = (0, ([''sim'', ''+trace''], 0))
   \<and> answers (timed_runtime 2) 0 200000 ([''sim''], 0) =
       answers (timed_runtime 2) 0 200000 ([''sim'', ''+trace''], 0)
   \<and> num_evals (trace (snd (main (timed_runtime 2) 1 [''sim''] ([], 0)))) =
       num_evals (trace (snd (main (timed_runtime 2) 2 [''sim'', ''+trace''] ([], 0))))
   \<and> fst (main (timed_runtime 2) 1 [''sim''] ([], 0 :: nat)) =
       fst (main (timed_runtime 2) 2 [''sim'', ''+trace''] ([], 0 :: nat))"
proof -
  have h1: "new_tb (timed_runtime 2) (commandArgs (timed_runtime 2) 1 [''sim''] ([], 0))
              = (0, ([''sim''], 0))"
    by (simp add: new_timed)
  have h2: "new_tb (timed_runtime 2)
              (commandArgs (timed_runtime 2) 2 [''sim'', ''+trace''] ([], 0))
              = (0, ([''sim'', ''+trace''], 0))"
    by (simp add: new_timed)
  have h3: "answers (timed_runtime 2) 0 200000 ([''sim''], 0) =
              answers (timed_runtime 2) 0 200000 ([''sim'', ''+trace''], 0)"
    by (rule answers_timed) simp
  note run = control_flow_independent_of_arguments [OF h1 h2 h3]
  show ?thesis
    by (intro conjI h1 h2 h3 conjunct1 [OF run] conjunct1 [OF conjunct2 [OF run]])
qed

text \<open>
  C10. The completion flag is checked before every evaluation call. Wherever a run makes
  an evaluation call, the call just before it is a completion query that was answered
  "not finished", so the most recent query saw the flag down; and no query made earlier in
  the run was answered "finished", so no step is made once completion has been observed.
\<close>

theorem eval_guarded_by_check:
  assumes "trace (snd (main R argc argv w0)) = p @ Eval h # r"
  shows "p \<noteq> [] \<and> last p = GotFinish False
         \<and> last_check p = Some False
         \<and> GotFinish True \<notin> set p"
proof -
  note before = eval_in_main [OF assms]
  then have "p = butlast p @ [GotFinish False]"
    by (metis append_butlast_last_id)
  then have "last_check p = last_check (butlast p @ [GotFinish False])"
    by simp
  then have "last_check p = Some False"
    by (simp only: last_check_snoc)
  with before show ?thesis by simp
qed

theorem eval_guarded_by_check_witness:
  "trace (snd (main (timed_runtime 2) 1 [''sim''] ([], 0))) =
     [CommandArgs 1 [''sim''], New 0, GotFinish False, Eval 0, GotFinish False]
       @ Eval 0 # [GotFinish True, Delete 0]
   \<and> last [CommandArgs 1 [''sim''], New (0 :: nat), GotFinish False, Eval 0, GotFinish False]
       = GotFinish False
   \<and> last_check [CommandArgs 1 [''sim''], New (0 :: nat), GotFinish False, Eval 0, GotFinish False]
       = Some False
   \<and> GotFinish True \<notin>
       set [CommandArgs 1 [''sim''], New (0 :: nat), GotFinish False, Eval 0, GotFinish False]"
proof -
  have "trace (snd (main (timed_runtime 2) 1 [''sim''] ([], 0))) =
          [CommandArgs 1 [''sim''], New 0] @ rounds 0 2 @ [GotFinish True, Delete 0]"
    by (rule timed_trace) simp
  then have h: "trace (snd (main (timed_runtime 2) 1 [''sim''] ([], 0))) =
     [CommandArgs 1 [''sim''], New 0, GotFinish False, Eval 0, GotFinish False]
       @ Eval 0 # [GotFinish True, Delete 0]"
    by (simp add: eval_nat_numeral)
  note run = eval_guarded_by_check [OF h]
  show ?thesis
    using h run by blast
qed

end
